theory Spec2Isabelle
  imports Complex_Main "HOL-Library.Log_Nat" "HOL-Library.Sublist" "HOL-Library.Multiset"
begin

section \<open>Text and exceptions\<close>

text \<open>
  A Python \<open>str\<close> is modelled as a \<open>string\<close> whose characters are the code points
  0..255 (Latin-1); \<open>bytes\<close> are a \<open>string\<close> as well. The character classes below are
  those of \<open>str.lower\<close> and of the \<open>re\<close> module (\<open>\\w\<close>, \<open>\\d\<close>, \<open>\\s\<close> on \<open>str\<close> patterns)
  on that range. An exception value stands for an instance of a subclass of
  \<open>Exception\<close>, named by its class.
\<close>

datatype py_exception = PyException string

definition code_point :: "char \<Rightarrow> nat" where
  "code_point c = of_char c"

definition lower_char :: "char \<Rightarrow> char" where
  "lower_char c =
     (let n = code_point c
      in if (65 \<le> n \<and> n \<le> 90) \<or> (192 \<le> n \<and> n \<le> 214) \<or> (216 \<le> n \<and> n \<le> 222)
         then char_of (n + 32) else c)"

definition lower :: "string \<Rightarrow> string" where
  "lower s = map lower_char s"

definition is_digit :: "char \<Rightarrow> bool" where
  "is_digit c = (48 \<le> code_point c \<and> code_point c \<le> 57)"

definition is_space :: "char \<Rightarrow> bool" where
  "is_space c =
     (let n = code_point c
      in (9 \<le> n \<and> n \<le> 13) \<or> (28 \<le> n \<and> n \<le> 32) \<or> n = 133 \<or> n = 160)"

definition is_word :: "char \<Rightarrow> bool" where
  "is_word c =
     (let n = code_point c
      in (48 \<le> n \<and> n \<le> 57) \<or> (65 \<le> n \<and> n \<le> 90) \<or> n = 95 \<or> (97 \<le> n \<and> n \<le> 122)
         \<or> n = 170 \<or> n = 178 \<or> n = 179 \<or> n = 181 \<or> n = 185 \<or> n = 186
         \<or> (188 \<le> n \<and> n \<le> 190) \<or> (192 \<le> n \<and> n \<le> 214) \<or> (216 \<le> n \<and> n \<le> 246)
         \<or> 248 \<le> n)"

section \<open>Floating point\<close>

text \<open>
  A Python \<open>float\<close> is an IEEE 754 binary64 number; the model keeps its exact value as a
  rational. \<open>to_double\<close> rounds a rational to the nearest binary64 value, ties to the
  even significand (normal range only: the scores here lie between 0 and 4). A float
  literal of the source is \<open>to_double\<close> of its decimal, and \<open>+\<close> on floats is \<open>fadd\<close>.
\<close>

definition pow2 :: "int \<Rightarrow> rat" where
  "pow2 e = (if 0 \<le> e then 2 ^ nat e else 1 / 2 ^ nat (- e))"

definition ilog2 :: "rat \<Rightarrow> int" where
  "ilog2 x =
     (let (a, b) = quotient_of x; e = bitlen a - bitlen b
      in if x < pow2 e then e - 1 else e)"

definition round_half_even :: "rat \<Rightarrow> int" where
  "round_half_even x =
     (let f = \<lfloor>x\<rfloor>; r = x - of_int f
      in if r < 1 / 2 then f else if 1 / 2 < r then f + 1 else if even f then f else f + 1)"

definition to_double :: "rat \<Rightarrow> rat" where
  "to_double x =
     (if x = 0 then 0
      else let a = \<bar>x\<bar>; u = pow2 (ilog2 a - 52); m = of_int (round_half_even (a / u)) * u
           in if x < 0 then - m else m)"

definition fadd :: "rat \<Rightarrow> rat \<Rightarrow> rat" where
  "fadd x y = to_double (x + y)"

section \<open>Regular expressions of spam_model.py\<close>

text \<open>
  The patterns of the source use literals, the classes \<open>\\d\<close> and \<open>\\S\<close>, the assertion
  \<open>\\b\<close> and the greedy quantifiers \<open>?\<close>, \<open>+\<close> and \<open>{2,}\<close>. \<open>x+\<close> is written \<open>x x*\<close> and
  \<open>x{2,}\<close> is written \<open>x x x*\<close>. \<open>re_match\<close> is the backtracking matcher anchored at the
  current position: it returns the text left after the first match in priority order
  (greedy), and takes the character before the position for \<open>\\b\<close>.
\<close>

datatype re_atom = Lit char | Digit | NonSpace

datatype re_item = Atom re_atom | Opt re_atom | Star re_atom | Boundary

type_synonym regex = "re_item list"

fun atom_ok :: "re_atom \<Rightarrow> char \<Rightarrow> bool" where
  "atom_ok (Lit l) c = (c = l)"
| "atom_ok Digit c = is_digit c"
| "atom_ok NonSpace c = (\<not> is_space c)"

fun word_at :: "char option \<Rightarrow> bool" where
  "word_at None = False"
| "word_at (Some c) = is_word c"

fun first_char :: "string \<Rightarrow> char option" where
  "first_char [] = None"
| "first_char (c # cs) = Some c"

fun re_match :: "regex \<Rightarrow> char option \<Rightarrow> string \<Rightarrow> string option" where
  "re_match [] p s = Some s"
| "re_match (Atom a # r) p [] = None"
| "re_match (Atom a # r) p (c # cs) = (if atom_ok a c then re_match r (Some c) cs else None)"
| "re_match (Opt a # r) p [] = re_match r p []"
| "re_match (Opt a # r) p (c # cs) =
     (if atom_ok a c
      then (case re_match r (Some c) cs of Some t \<Rightarrow> Some t | None \<Rightarrow> re_match r p (c # cs))
      else re_match r p (c # cs))"
| "re_match (Star a # r) p [] = re_match r p []"
| "re_match (Star a # r) p (c # cs) =
     (if atom_ok a c
      then (case re_match (Star a # r) (Some c) cs of Some t \<Rightarrow> Some t
            | None \<Rightarrow> re_match r p (c # cs))
      else re_match r p (c # cs))"
| "re_match (Boundary # r) p s =
     (if word_at p \<noteq> word_at (first_char s) then re_match r p s else None)"

text \<open>\<open>re.search\<close>: is there a position where the pattern matches?\<close>

fun re_search_from :: "regex \<Rightarrow> char option \<Rightarrow> string \<Rightarrow> bool" where
  "re_search_from r p [] = (case re_match r p [] of Some t \<Rightarrow> True | None \<Rightarrow> False)"
| "re_search_from r p (c # cs) =
     (case re_match r p (c # cs) of Some t \<Rightarrow> True | None \<Rightarrow> re_search_from r (Some c) cs)"

definition re_search :: "regex \<Rightarrow> string \<Rightarrow> bool" where
  "re_search r s = re_search_from r None s"

text \<open>
  \<open>len(pattern.findall(text))\<close>: the number of non-overlapping matches, scanning from the
  left. The last argument counts the characters still inside the previous match.
\<close>

fun findall_count :: "regex \<Rightarrow> char option \<Rightarrow> string \<Rightarrow> nat \<Rightarrow> nat" where
  "findall_count r p [] k =
     (if 0 < k then 0 else (case re_match r p [] of None \<Rightarrow> 0 | Some t \<Rightarrow> 1))"
| "findall_count r p (c # cs) k =
     (if 0 < k then findall_count r (Some c) cs (k - 1)
      else (case re_match r p (c # cs) of
              None \<Rightarrow> findall_count r (Some c) cs 0
            | Some t \<Rightarrow> 1 + findall_count r (Some c) cs (length cs - length t)))"

definition lit :: "string \<Rightarrow> regex" where
  "lit s = map (\<lambda>c. Atom (Lit c)) s"

definition plus :: "re_atom \<Rightarrow> regex" where
  "plus a = [Atom a, Star a]"

definition SPAM_KEYWORDS :: "regex list" where
  "SPAM_KEYWORDS =
     [lit ''free'' @ [Boundary], lit ''buy now'', lit ''limited time'', lit ''winner'',
      lit ''congratulat'', lit ''claim prize'', lit ''click here'', lit ''urgent'',
      lit ''act now'', lit ''cheap'' @ [Boundary], lit ''$'' @ plus Digit, lit ''viagra'',
      lit ''lottery'']"

definition URL_RE :: regex where
  "URL_RE = lit ''http'' @ [Opt (Lit CHR ''s'')] @ lit ''://'' @ plus NonSpace"

definition EXCLAMATION_RE :: regex where
  "EXCLAMATION_RE = lit ''!'' @ plus (Lit CHR ''!'')"

section \<open>The rule-based scorer and SpamModel.predict\<close>

record verdict =
  is_spam :: bool
  score :: rat

definition keyword_score :: "string \<Rightarrow> rat" where
  "keyword_score text_l =
     foldl (\<lambda>sc kw. if re_search kw text_l then fadd sc (to_double (25 / 100)) else sc)
       0 SPAM_KEYWORDS"

definition rule_based_detection :: "string \<Rightarrow> verdict" where
  "rule_based_detection text =
     (let text_l = lower text;
          sc0 = keyword_score text_l;
          sc1 = (if re_search EXCLAMATION_RE text then fadd sc0 (to_double (15 / 100)) else sc0);
          urls = findall_count URL_RE None text 0;
          sc2 = (if 2 \<le> urls then fadd sc1 (to_double (2 / 10))
                 else if urls = 1 then fadd sc1 (to_double (8 / 100)) else sc1);
          sc3 = min sc2 1
      in \<lparr>is_spam = (1 / 2 \<le> sc3), score = sc3\<rparr>)"

text \<open>
  \<open>SpamModel.predict\<close>. The trained pipeline is an opaque artifact: when loaded, it is a
  function from the text to the spam probability that \<open>predict_proba\<close> reports, or to
  the exception it raises. \<open>text\<close> may be \<open>None\<close>; \<open>text or ""\<close> turns \<open>None\<close> and the
  empty string into the empty string.
\<close>

type_synonym pipeline = "string \<Rightarrow> py_exception + rat"

definition predict :: "pipeline option \<Rightarrow> string option \<Rightarrow> py_exception + verdict" where
  "predict pl text =
     (let txt = (case text of None \<Rightarrow> '''' | Some t \<Rightarrow> t)
      in case pl of
           Some p \<Rightarrow> (case p txt of Inl e \<Rightarrow> Inl e
                      | Inr proba \<Rightarrow> Inr \<lparr>is_spam = (1 / 2 \<le> proba), score = proba\<rparr>)
         | None \<Rightarrow> Inr (rule_based_detection txt))"

text \<open>
  The keyword rule in the words of the specification: each phrase of the fixed set is
  looked for as a substring of the lower-cased text, the dollar amount as a \<open>$\<close> followed
  by a digit, and each phrase found adds 0.25.
\<close>

fun substring_of :: "string \<Rightarrow> string \<Rightarrow> bool" where
  "substring_of kw [] = (kw = [])"
| "substring_of kw (c # cs) = (if prefix kw (c # cs) then True else substring_of kw cs)"

fun dollar_amount_in :: "string \<Rightarrow> bool" where
  "dollar_amount_in [] = False"
| "dollar_amount_in [c] = False"
| "dollar_amount_in (c # d # cs) =
     (if c = CHR ''$'' \<and> is_digit d then True else dollar_amount_in (d # cs))"



section \<open>The message parser of main.py\<close>

text \<open>
  The \<open>email\<close> package is an external collaborator. The operations \<open>parse_email\<close> calls
  are taken as parameters over an abstract message type; each one that can raise returns
  a sum. \<open>get_header m name\<close> is \<open>m.get(name, "")\<close> read through \<open>str\<close>: \<open>None\<close> when the
  header is absent (the default \<open>""\<close> is returned). \<open>get_content\<close> is read through \<open>str\<close>.
  \<open>decode_replace\<close> is \<open>bytes.decode(errors='replace')\<close>, which never raises.
\<close>

record 'm email_lib =
  parsebytes :: "string \<Rightarrow> py_exception + 'm"
  get_header :: "'m \<Rightarrow> string \<Rightarrow> py_exception + string option"
  is_multipart :: "'m \<Rightarrow> bool"
  walk :: "'m \<Rightarrow> 'm list"
  get_content_type :: "'m \<Rightarrow> string"
  get_content :: "'m \<Rightarrow> py_exception + string"
  decode_replace :: "string \<Rightarrow> string"

record parsed_message =
  pm_subject :: string
  pm_from :: string
  pm_to :: string
  pm_body :: string
  pm_raw :: string

fun join :: "string \<Rightarrow> string list \<Rightarrow> string" where
  "join sep [] = []"
| "join sep [x] = x"
| "join sep (x # y # ys) = x @ sep @ join sep (y # ys)"

text \<open>\<open>v or ""\<close> on the value of \<open>msg.get(name, "")\<close>.\<close>

fun or_empty :: "string option \<Rightarrow> string" where
  "or_empty None = []"
| "or_empty (Some v) = v"

text \<open>The loop over \<open>msg.walk()\<close> that collects the content of the text/plain parts.\<close>

fun plain_parts :: "'m email_lib \<Rightarrow> 'm list \<Rightarrow> string list \<Rightarrow> py_exception + string list" where
  "plain_parts lib [] parts = Inr parts"
| "plain_parts lib (p # ps) parts =
     (if get_content_type lib p = ''text/plain''
      then (case get_content lib p of
              Inl e \<Rightarrow> Inl e
            | Inr c \<Rightarrow> plain_parts lib ps (parts @ [c]))
      else plain_parts lib ps parts)"

definition message_body :: "'m email_lib \<Rightarrow> 'm \<Rightarrow> py_exception + string" where
  "message_body lib msg =
     (if is_multipart lib msg
      then (case plain_parts lib (walk lib msg) [] of
              Inl e \<Rightarrow> Inl e
            | Inr parts \<Rightarrow> Inr (join [CHR 0x0A] parts))
      else get_content lib msg)"

definition parse_email :: "'m email_lib \<Rightarrow> string \<Rightarrow> py_exception + parsed_message" where
  "parse_email lib msg_bytes =
     (case parsebytes lib msg_bytes of
        Inl e \<Rightarrow> Inl e
      | Inr msg \<Rightarrow>
     (case get_header lib msg ''subject'' of
        Inl e \<Rightarrow> Inl e
      | Inr subject \<Rightarrow>
     (case get_header lib msg ''from'' of
        Inl e \<Rightarrow> Inl e
      | Inr from_ \<Rightarrow>
     (case get_header lib msg ''to'' of
        Inl e \<Rightarrow> Inl e
      | Inr to_ \<Rightarrow>
     (case message_body lib msg of
        Inl e \<Rightarrow> Inl e
      | Inr body \<Rightarrow>
          Inr \<lparr>pm_subject = or_empty subject, pm_from = or_empty from_, pm_to = or_empty to_,
               pm_body = body, pm_raw = decode_replace lib msg_bytes\<rparr>)))))"


text \<open>
  What the package does on \<open>b"Subject: hi\\n\\nhello"\<close>: a text/plain message with the
  subject \<open>hi\<close>, no other header, and the content \<open>hello\<close>.
\<close>

definition lib_on_plain_message :: "unit email_lib" where
  "lib_on_plain_message =
     \<lparr>parsebytes = (\<lambda>b. Inr ()),
      get_header = (\<lambda>m h. Inr (if h = ''subject'' then Some ''hi'' else None)),
      is_multipart = (\<lambda>m. False),
      walk = (\<lambda>m. [()]),
      get_content_type = (\<lambda>m. ''text/plain''),
      get_content = (\<lambda>m. Inr ''hello''),
      decode_replace = (\<lambda>b. b)\<rparr>"

text \<open>
  What the package does on \<open>b"From: Sale <Sale@SHOP.Test>\\n\\nx"\<close>: a text/plain
  message whose From header reads \<open>Sale <Sale@SHOP.Test>\<close>, with no other header and the
  content \<open>x\<close>.
\<close>

definition lib_on_sale_message :: "unit email_lib" where
  "lib_on_sale_message =
     \<lparr>parsebytes = (\<lambda>b. Inr ()),
      get_header = (\<lambda>m h. Inr (if h = ''from'' then Some ''Sale <Sale@SHOP.Test>'' else None)),
      is_multipart = (\<lambda>m. False),
      walk = (\<lambda>m. [()]),
      get_content_type = (\<lambda>m. ''text/plain''),
      get_content = (\<lambda>m. Inr ''x''),
      decode_replace = (\<lambda>b. b)\<rparr>"





section \<open>Statistics, events and the observer registry of main.py\<close>

record status =
  listening :: bool
  host :: string
  port :: nat

record event =
  ev_time :: nat
  ev_from :: string
  ev_from_header :: string
  ev_to :: "string list"
  ev_subject :: string
  ev_is_spam :: bool
  ev_score :: rat

text \<open>
  \<open>domains\<close> is a \<open>Counter\<close>: a dictionary, which iterates in the order in which its keys
  were first inserted; it is an association list in that order. \<open>events\<close> is a
  \<open>deque(maxlen=200)\<close>, newest first.
\<close>

record stats =
  total_emails :: nat
  spam_count :: nat
  domains :: "(string \<times> nat) list"
  events :: "event list"
  smtp_status :: status

definition SMTP_HOST :: string where
  "SMTP_HOST = ''0.0.0.0''"

definition SMTP_PORT :: nat where
  "SMTP_PORT = 1025"

definition initial_stats :: stats where
  "initial_stats =
     \<lparr>total_emails = 0, spam_count = 0, domains = [], events = [],
      smtp_status = \<lparr>listening = False, host = SMTP_HOST, port = SMTP_PORT\<rparr>\<rparr>"

text \<open>\<open>counter[k] += 1\<close>: a missing key counts as 0 and is inserted last.\<close>

fun counter_incr :: "string \<Rightarrow> (string \<times> nat) list \<Rightarrow> (string \<times> nat) list" where
  "counter_incr k [] = [(k, 1)]"
| "counter_incr k ((k', n) # kvs) =
     (if k = k' then (k', n + 1) # kvs else (k', n) # counter_incr k kvs)"

text \<open>\<open>deque.appendleft\<close> with \<open>maxlen\<close>: a full deque drops its right end.\<close>

definition appendleft :: "nat \<Rightarrow> 'a \<Rightarrow> 'a list \<Rightarrow> 'a list" where
  "appendleft maxlen x q = take maxlen (x # q)"

text \<open>
  \<open>Counter.most_common(n)\<close> is \<open>heapq.nlargest(n, items, key=count)\<close>, which the library
  defines as \<open>sorted(items, key=count, reverse=True)[:n]\<close>; \<open>sorted\<close> is stable, also in
  reverse. The stable insertion sort below orders by falling count.
\<close>

definition most_common :: "nat \<Rightarrow> (string \<times> nat) list \<Rightarrow> (string \<times> nat) list" where
  "most_common n kvs = take n (sort_key (\<lambda>kv. - int (snd kv)) kvs)"

record snapshot =
  sn_total_emails :: nat
  sn_spam_count :: nat
  sn_top_domains :: "(string \<times> nat) list"
  sn_smtp_status :: status

definition summary_stats :: "stats \<Rightarrow> snapshot" where
  "summary_stats st =
     \<lparr>sn_total_emails = total_emails st, sn_spam_count = spam_count st,
      sn_top_domains = most_common 10 (domains st), sn_smtp_status = smtp_status st\<rparr>"

subsection \<open>Sender domain\<close>

text \<open>\<open>s.split(sep)\<close> for a one-character separator; the result is never empty.\<close>

fun split_on :: "char \<Rightarrow> string \<Rightarrow> string list" where
  "split_on sep [] = [[]]"
| "split_on sep (c # cs) =
     (if c = sep then [] # split_on sep cs
      else (case split_on sep cs of [] \<Rightarrow> [[c]] | w # ws \<Rightarrow> (c # w) # ws))"

text \<open>\<open>xs[-1]\<close> on a list that \<open>split\<close> returned.\<close>

fun last_item :: "string list \<Rightarrow> string" where
  "last_item [] = []"
| "last_item [x] = x"
| "last_item (x # y # ys) = last_item (y # ys)"

text \<open>\<open>s.strip(chars)\<close>: drops the leading and the trailing characters that are in \<open>chars\<close>.\<close>

definition strip :: "string \<Rightarrow> string \<Rightarrow> string" where
  "strip chars s =
     rev (dropWhile (\<lambda>c. c \<in> set chars) (rev (dropWhile (\<lambda>c. c \<in> set chars) s)))"

text \<open>
  The block of \<open>process_email\<close> that derives \<open>sender_domain\<close>; \<open>None\<close> is Python's \<open>None\<close>.
  None of the string operations in its \<open>try\<close> raises.
\<close>

definition sender_domain_of :: "string \<Rightarrow> string \<Rightarrow> string option" where
  "sender_domain_of envelope_from from_header =
     (if CHR ''@'' \<in> set envelope_from
      then Some (lower (last_item (split_on CHR ''@'' envelope_from)))
      else if from_header \<noteq> []
      then (if CHR ''@'' \<in> set from_header
            then Some (lower (strip '' >'' (last_item (split_on CHR ''@'' from_header))))
            else None)
      else None)"

subsection \<open>The observer registry\<close>

text \<open>
  \<open>ConnectionManager\<close>: \<open>active\<close> is the list of registered websockets, compared by
  identity. \<open>send\<close> gives, for each websocket, what \<open>send_text\<close> does with the message
  of this broadcast: \<open>None\<close> when it returns, the exception when it raises. The loop
  returns the websockets it called \<open>send_text\<close> on and the list \<open>to_remove\<close>.
\<close>

definition disconnect :: "'c \<Rightarrow> 'c list \<Rightarrow> 'c list" where
  "disconnect websocket active = (if websocket \<in> set active then remove1 websocket active else active)"

fun send_loop :: "('c \<Rightarrow> py_exception option) \<Rightarrow> 'c list \<Rightarrow> 'c list \<Rightarrow> 'c list \<Rightarrow> 'c list \<times> 'c list" where
  "send_loop send [] attempted to_remove = (attempted, to_remove)"
| "send_loop send (conn # conns) attempted to_remove =
     (case send conn of
        None \<Rightarrow> send_loop send conns (attempted @ [conn]) to_remove
      | Some exc \<Rightarrow> send_loop send conns (attempted @ [conn]) (to_remove @ [conn]))"

fun disconnect_all :: "'c list \<Rightarrow> 'c list \<Rightarrow> 'c list" where
  "disconnect_all [] active = active"
| "disconnect_all (conn # conns) active = disconnect_all conns (disconnect conn active)"

record 'c broadcast_result =
  attempted :: "'c list"
  active_after :: "'c list"

definition broadcast :: "('c \<Rightarrow> py_exception option) \<Rightarrow> 'c list \<Rightarrow> 'c broadcast_result" where
  "broadcast send active =
     (case send_loop send active [] [] of
        (att, to_remove) \<Rightarrow> \<lparr>attempted = att, active_after = disconnect_all to_remove active\<rparr>)"

subsection \<open>process_email\<close>

text \<open>
  The shared state is the statistics and the registry. A delivery carries the three
  arguments of \<open>process_email\<close> and what the environment answers while it runs: the clock
  reading \<open>utcnow()\<close>, as the number of microseconds that \<open>isoformat() + "Z"\<close> renders, and
  the outcome of \<open>send_text\<close> on each websocket.
  The email library and the loaded pipeline are fixed for the process.
\<close>

record 'c world =
  w_stats :: stats
  w_active :: "'c list"

record 'c delivery =
  envelope_from :: string
  rcpt_tos :: "string list"
  message_bytes :: string
  now :: nat
  send :: "'c \<Rightarrow> py_exception option"

definition make_event :: "'c delivery \<Rightarrow> parsed_message \<Rightarrow> verdict \<Rightarrow> event" where
  "make_event d parsed result =
     \<lparr>ev_time = now d, ev_from = envelope_from d, ev_from_header = pm_from parsed,
      ev_to = rcpt_tos d, ev_subject = pm_subject parsed, ev_is_spam = is_spam result,
      ev_score = score result\<rparr>"

text \<open>The block under \<open>stats_lock\<close>.\<close>

definition update_stats :: "stats \<Rightarrow> bool \<Rightarrow> string option \<Rightarrow> event \<Rightarrow> stats" where
  "update_stats st spam sender_domain ev =
     (let st1 = st\<lparr>total_emails := total_emails st + 1\<rparr>;
          st2 = (if spam then st1\<lparr>spam_count := spam_count st1 + 1\<rparr> else st1);
          st3 = (case sender_domain of
                   None \<Rightarrow> st2
                 | Some sd \<Rightarrow>
                     if sd \<noteq> [] then st2\<lparr>domains := counter_incr sd (domains st2)\<rparr> else st2)
      in st3\<lparr>events := appendleft 200 ev (events st3)\<rparr>)"

definition process_email ::
  "'m email_lib \<Rightarrow> pipeline option \<Rightarrow> 'c world \<Rightarrow> 'c delivery \<Rightarrow> py_exception + 'c world" where
  "process_email lib pl w d =
     (case parse_email lib (message_bytes d) of
        Inl e \<Rightarrow> Inl e
      | Inr parsed \<Rightarrow>
     (case predict pl
             (Some (join '' '' [pm_subject parsed, pm_body parsed, envelope_from d, pm_from parsed])) of
        Inl e \<Rightarrow> Inl e
      | Inr result \<Rightarrow>
          Inr \<lparr>w_stats =
                 update_stats (w_stats w) (is_spam result)
                   (sender_domain_of (envelope_from d) (pm_from parsed))
                   (make_event d parsed result),
               w_active = active_after (broadcast (send d) (w_active w))\<rparr>))"

section \<open>The SMTP handler of smtp_handler.py\<close>

text \<open>
  \<open>ForwardingHandler.handle_DATA\<close> awaits the callback it was built with and answers the
  SMTP client. A callback that raises leaves the state as it was when it raised; the
  callbacks here raise before they change anything.
\<close>

definition handle_DATA :: "('w \<Rightarrow> 'd \<Rightarrow> py_exception + 'w) \<Rightarrow> 'w \<Rightarrow> 'd \<Rightarrow> 'w \<times> string" where
  "handle_DATA callback w envelope =
     (case callback w envelope of
        Inr w' \<Rightarrow> (w', ''250 Message accepted for delivery'')
      | Inl exc \<Rightarrow> (w, ''250 Message accepted (processing error)''))"

definition smtp_callback ::
  "'m email_lib \<Rightarrow> pipeline option \<Rightarrow> 'c world \<Rightarrow> 'c delivery \<Rightarrow> py_exception + 'c world" where
  "smtp_callback lib pl w d = process_email lib pl w d"


text \<open>A sequence of deliveries handled one after the other.\<close>

fun deliver_all :: "'m email_lib \<Rightarrow> pipeline option \<Rightarrow> 'c world \<Rightarrow> 'c delivery list \<Rightarrow> 'c world" where
  "deliver_all lib pl w [] = w"
| "deliver_all lib pl w (d # ds) =
     deliver_all lib pl (fst (handle_DATA (smtp_callback lib pl) w d)) ds"

definition initial_world :: "'c world" where
  "initial_world = \<lparr>w_stats = initial_stats, w_active = []\<rparr>"

section \<open>Sequences of deliveries\<close>

text \<open>
  What \<open>process_email\<close> computes from a delivery before it touches the shared state: the
  event, \<open>is_spam\<close> and \<open>sender_domain\<close>; \<open>None\<close> when parsing or classifying raises.
  \<open>outcomes\<close> lists them for the deliveries that were processed, oldest first.
\<close>

definition outcome_of ::
  "'m email_lib \<Rightarrow> pipeline option \<Rightarrow> 'c delivery \<Rightarrow> (event \<times> bool \<times> string option) option" where
  "outcome_of lib pl d =
     (case parse_email lib (message_bytes d) of
        Inl e \<Rightarrow> None
      | Inr parsed \<Rightarrow>
     (case predict pl
             (Some (join '' '' [pm_subject parsed, pm_body parsed, envelope_from d, pm_from parsed])) of
        Inl e \<Rightarrow> None
      | Inr result \<Rightarrow>
          Some (make_event d parsed result, is_spam result,
                sender_domain_of (envelope_from d) (pm_from parsed))))"

definition outcomes ::
  "'m email_lib \<Rightarrow> pipeline option \<Rightarrow> 'c delivery list \<Rightarrow> (event \<times> bool \<times> string option) list" where
  "outcomes lib pl ds = List.map_filter (outcome_of lib pl) ds"

text \<open>\<open>if sender_domain:\<close> holds: the domain is neither \<open>None\<close> nor empty.\<close>

definition counted :: "event \<times> bool \<times> string option \<Rightarrow> bool" where
  "counted oc = (case snd (snd oc) of None \<Rightarrow> False | Some sd \<Rightarrow> sd \<noteq> [])"

fun apply_outcomes :: "stats \<Rightarrow> (event \<times> bool \<times> string option) list \<Rightarrow> stats" where
  "apply_outcomes st [] = st"
| "apply_outcomes st ((ev, sp, sd) # os) = apply_outcomes (update_stats st sp sd ev) os"

text \<open>
  Example deliveries: the message \<open>b"Subject: hi\\n\\nhello"\<close> from
  \<open>promo@deals.example.com\<close>, received at instant \<open>i\<close>; the same with an empty
  envelope sender; a message with the header \<open>From: Sale <Sale@SHOP.Test>\<close> and an
  empty envelope sender; and the first message from \<open>Promo@Deals.Example.COM\<close>.
\<close>

definition example_delivery :: "nat \<Rightarrow> unit delivery" where
  "example_delivery i =
     \<lparr>envelope_from = ''promo@deals.example.com'', rcpt_tos = [''me@here.test''],
      message_bytes = ''Subject: hi'' @ [CHR 0x0A, CHR 0x0A] @ ''hello'', now = i,
      send = (\<lambda>c. None)\<rparr>"

definition example_delivery_sale :: "unit delivery" where
  "example_delivery_sale =
     \<lparr>envelope_from = [], rcpt_tos = [''me@here.test''],
      message_bytes = ''From: Sale <Sale@SHOP.Test>'' @ [CHR 0x0A, CHR 0x0A] @ ''x'', now = 0,
      send = (\<lambda>c. None)\<rparr>"

definition example_delivery_mixed_case :: "unit delivery" where
  "example_delivery_mixed_case =
     \<lparr>envelope_from = ''Promo@Deals.Example.COM'', rcpt_tos = [''me@here.test''],
      message_bytes = ''Subject: hi'' @ [CHR 0x0A, CHR 0x0A] @ ''hello'', now = 0,
      send = (\<lambda>c. None)\<rparr>"

definition example_deliveries :: "unit delivery list" where
  "example_deliveries = map example_delivery [0..<201]"

definition example_delivery_no_sender :: "unit delivery" where
  "example_delivery_no_sender =
     \<lparr>envelope_from = [], rcpt_tos = [''me@here.test''],
      message_bytes = ''Subject: hi'' @ [CHR 0x0A, CHR 0x0A] @ ''hello'', now = 0,
      send = (\<lambda>c. None)\<rparr>"

section \<open>The scorer on fixed inputs\<close>

text \<open>
  C10: with no trained model loaded, \<open>predict\<close> on \<open>None\<close> and on the empty string
  scores the empty string with the rule-based detector and returns, without raising,
  \<open>is_spam = False\<close> and \<open>score = 0.0\<close>.
\<close>

theorem predict_empty_no_model:
  "predict None None = Inr \<lparr>is_spam = False, score = 0\<rparr>
   \<and> predict None (Some []) = Inr \<lparr>is_spam = False, score = 0\<rparr>"
  by code_simp

text \<open>
  C3, as stated, fails: on \<open>"FREE!! http://a http://b"\<close> the returned float is not the
  float \<open>0.60\<close>.
\<close>

theorem score_free_example_not_sixty:
  "score (rule_based_detection ''FREE!! http://a http://b'') \<noteq> to_double (60 / 100)"
  by code_simp

text \<open>
  C3, amended: on \<open>"FREE!! http://a http://b"\<close> exactly the keyword \<open>free\<close> matches, the
  double exclamation mark matches and two URLs are found; the score is the float sum
  \<open>0.25 + 0.15 + 0.2\<close>, which is \<open>0.6000000000000001\<close>, one unit in the last place
  (\<open>2^-53\<close>) above the float \<open>0.6\<close>, and \<open>is_spam\<close> is true.
\<close>

theorem score_free_example:
  "filter (\<lambda>kw. re_search kw (lower ''FREE!! http://a http://b'')) SPAM_KEYWORDS
     = [lit ''free'' @ [Boundary]]
   \<and> re_search EXCLAMATION_RE ''FREE!! http://a http://b''
   \<and> findall_count URL_RE None ''FREE!! http://a http://b'' 0 = 2
   \<and> score (rule_based_detection ''FREE!! http://a http://b'')
       = fadd (fadd (to_double (25 / 100)) (to_double (15 / 100))) (to_double (2 / 10))
   \<and> score (rule_based_detection ''FREE!! http://a http://b'')
       = 5404319552844596 / 9007199254740992
   \<and> score (rule_based_detection ''FREE!! http://a http://b'') - to_double (60 / 100)
       = 1 / 2 ^ 53
   \<and> is_spam (rule_based_detection ''FREE!! http://a http://b'')"
  by code_simp

section \<open>The observer registry\<close>

lemma send_loop_eq:
  "send_loop sf xs att rem = (att @ xs, rem @ filter (\<lambda>c. sf c \<noteq> None) xs)"
  by (induction xs arbitrary: att rem) (auto split: option.splits)

lemma disconnect_head: "disconnect c (c # ys) = ys"
  by (simp add: disconnect_def)

lemma disconnect_all_keep:
  "x \<notin> set rs \<Longrightarrow> disconnect_all rs (x # ys) = x # disconnect_all rs ys"
  by (induction rs arbitrary: ys) (auto simp: disconnect_def)

lemma disconnect_all_failed:
  "disconnect_all (filter (\<lambda>c. sf c \<noteq> None) xs) xs = filter (\<lambda>c. sf c = None) xs"
proof (induction xs)
  case Nil
  then show ?case by simp
next
  case (Cons x xs)
  show ?case
  proof (cases "sf x")
    case None
    then have "x \<notin> set (filter (\<lambda>c. sf c \<noteq> None) xs)" by simp
    then show ?thesis using None Cons by (simp add: disconnect_all_keep)
  next
    case (Some e)
    then show ?thesis using Cons by (simp add: disconnect_head)
  qed
qed

text \<open>
  C7: whatever \<open>send_text\<close> does on each websocket, \<open>broadcast\<close> calls it on every
  registered websocket, in registration order, so a failure on one does not stop the
  attempts on the others; when \<open>broadcast\<close> is done the registry holds exactly the
  websockets whose send returned, so every failing one has been removed.
\<close>

theorem broadcast_isolates_failures:
  "attempted (broadcast sf active) = active
   \<and> active_after (broadcast sf active) = filter (\<lambda>c. sf c = None) active"
  by (simp add: broadcast_def send_loop_eq disconnect_all_failed del: not_None_eq)

section \<open>The SMTP reply\<close>


section \<open>Sequences of deliveries: history and counters\<close>

lemma handle_step:
  "w_stats (fst (handle_DATA (smtp_callback lib pl) w d)) =
     (case outcome_of lib pl d of
        None \<Rightarrow> w_stats w
      | Some (ev, sp, sd) \<Rightarrow> update_stats (w_stats w) sp sd ev)"
  by (auto simp add: handle_DATA_def smtp_callback_def process_email_def outcome_of_def
      split: sum.splits)

lemma deliver_all_stats:
  "w_stats (deliver_all lib pl w ds) = apply_outcomes (w_stats w) (outcomes lib pl ds)"
proof (induction ds arbitrary: w)
  case Nil
  then show ?case by (simp add: outcomes_def map_filter_simps)
next
  case (Cons d ds)
  show ?case
    by (cases "outcome_of lib pl d")
       (auto simp add: Cons handle_step outcomes_def map_filter_simps)
qed

lemma events_update: "events (update_stats st sp sd ev) = take 200 (ev # events st)"
  by (simp add: update_stats_def appendleft_def Let_def split: option.splits)

lemma total_update: "total_emails (update_stats st sp sd ev) = total_emails st + 1"
  by (simp add: update_stats_def Let_def split: option.splits)

lemma spam_update:
  "spam_count (update_stats st sp sd ev) = spam_count st + (if sp then 1 else 0)"
  by (simp add: update_stats_def Let_def split: option.splits)

lemma sum_counter_incr: "sum_list (map snd (counter_incr k kvs)) = sum_list (map snd kvs) + 1"
  by (induction kvs) auto

lemma domains_update:
  "sum_list (map snd (domains (update_stats st sp sd ev))) =
     sum_list (map snd (domains st)) + (if counted (ev, sp, sd) then 1 else 0)"
  by (simp add: update_stats_def Let_def counted_def sum_counter_incr split: option.splits)

lemma events_apply:
  "events (apply_outcomes st os) = take 200 (rev (map fst os) @ events st)"
  if "length (events st) \<le> 200"
  using that
proof (induction os arbitrary: st)
  case Nil
  then show ?case by simp
next
  case (Cons oc os)
  obtain ev sp sd where oc: "oc = (ev, sp, sd)" by (cases oc) auto
  have len: "length (events (update_stats st sp sd ev)) \<le> 200"
    by (simp add: events_update)
  have "events (apply_outcomes st (oc # os))
        = take 200 (rev (map fst os) @ take 200 (ev # events st))"
    using Cons.IH [OF len] by (simp add: oc events_update)
  also have "\<dots> = take 200 (rev (map fst os) @ ev # events st)"
    using Cons.prems by (cases "length (events st) < 200") (simp_all add: take_Cons')
  finally show ?case by (simp add: oc)
qed

lemma total_apply: "total_emails (apply_outcomes st os) = total_emails st + length os"
  by (induction os arbitrary: st) (auto simp: total_update)

lemma spam_apply:
  "spam_count (apply_outcomes st os) = spam_count st + length (filter (\<lambda>oc. fst (snd oc)) os)"
  by (induction os arbitrary: st) (auto simp: spam_update)

lemma domains_apply:
  "sum_list (map snd (domains (apply_outcomes st os))) =
     sum_list (map snd (domains st)) + length (filter counted os)"
  by (induction os arbitrary: st) (auto simp: domains_update simp del: update_stats_def)


text \<open>
  C4: starting from the empty history, after any sequence of deliveries the history
  holds at most 200 events and is the newest-first list of the events of the processed
  deliveries, cut to 200; one delivery puts its event at index 0 in front of the old
  history, cut to 200 (a delivery that raises leaves the history alone). After 201
  processed deliveries index 0 holds the event of the 201st and the history is exactly
  the events of deliveries 201 down to 2: the event of the 1st is gone, and is found
  nowhere in the history unless a later delivery produced an equal event.
\<close>

theorem recent_events_bounded:
  fixes lib :: "'m email_lib" and pl :: "pipeline option"
    and ds :: "'c delivery list" and w :: "'c world" and d :: "'c delivery"
  defines "pe \<equiv> map fst (outcomes lib pl ds)"
      and "evs \<equiv> events (w_stats (deliver_all lib pl initial_world ds))"
  shows "length evs \<le> 200
     \<and> evs = take 200 (rev pe)
     \<and> events (w_stats (fst (handle_DATA (smtp_callback lib pl) w d)))
         = (case outcome_of lib pl d of
              None \<Rightarrow> events (w_stats w)
            | Some oc \<Rightarrow> take 200 (fst oc # events (w_stats w)))
     \<and> (length pe = 201 \<longrightarrow>
          evs ! 0 = pe ! 200 \<and> evs = rev (drop 1 pe)
          \<and> (pe ! 0 \<notin> set (drop 1 pe) \<longrightarrow> pe ! 0 \<notin> set evs))"
proof -
  have evs: "evs = take 200 (rev pe)"
    by (simp add: evs_def pe_def deliver_all_stats initial_world_def initial_stats_def
        events_apply)
  have step: "events (w_stats (fst (handle_DATA (smtp_callback lib pl) w d)))
         = (case outcome_of lib pl d of
              None \<Rightarrow> events (w_stats w)
            | Some oc \<Rightarrow> take 200 (fst oc # events (w_stats w)))"
    by (auto simp add: handle_step events_update split: option.splits)
  have last: "evs ! 0 = pe ! 200 \<and> evs = rev (drop 1 pe)" if len: "length pe = 201"
  proof -
    have "rev pe = rev (drop 1 pe) @ rev (take 1 pe)"
      by (metis append_take_drop_id rev_append)
    moreover have "length (rev (drop 1 pe)) = 200" using len by simp
    ultimately have e: "evs = rev (drop 1 pe)" using evs by simp
    have "rev (drop 1 pe) ! 0 = drop 1 pe ! 199" using len by (simp add: rev_nth)
    also have "\<dots> = pe ! 200" using len by simp
    finally show ?thesis using e by simp
  qed
  show ?thesis
  proof (intro conjI impI)
    show "length evs \<le> 200" by (simp add: evs)
    show "evs = take 200 (rev pe)" by (rule evs)
    show "events (w_stats (fst (handle_DATA (smtp_callback lib pl) w d)))
         = (case outcome_of lib pl d of
              None \<Rightarrow> events (w_stats w)
            | Some oc \<Rightarrow> take 200 (fst oc # events (w_stats w)))" by (rule step)
  next
    assume "length pe = 201"
    then show "evs ! 0 = pe ! 200" and "evs = rev (drop 1 pe)" using last by blast+
  next
    assume "length pe = 201" and "pe ! 0 \<notin> set (drop 1 pe)"
    then show "pe ! 0 \<notin> set evs" using last by simp
  qed
qed

text \<open>
  C5: starting from the all-zero state, after any sequence of deliveries
  \<open>total_emails\<close> is the number of processed deliveries, \<open>spam_count\<close> the number of those
  judged spam and the sum of the domain counts the number of those with a non-empty
  sender domain; so \<open>spam_count \<le> total_emails\<close> and the sum is at most \<open>total_emails\<close>,
  and strictly less as soon as one processed delivery had no sender domain.
\<close>

theorem counters_ordered:
  fixes lib :: "'m email_lib" and pl :: "pipeline option" and ds :: "'c delivery list"
  defines "os \<equiv> outcomes lib pl ds"
      and "st \<equiv> w_stats (deliver_all lib pl initial_world ds)"
  shows "spam_count st \<le> total_emails st
     \<and> sum_list (map snd (domains st)) \<le> total_emails st
     \<and> total_emails st = length os
     \<and> spam_count st = length (filter (\<lambda>oc. fst (snd oc)) os)
     \<and> sum_list (map snd (domains st)) = length (filter counted os)
     \<and> ((\<exists>oc \<in> set os. \<not> counted oc) \<longrightarrow> sum_list (map snd (domains st)) < total_emails st)"
proof -
  have t: "total_emails st = length os"
    and s: "spam_count st = length (filter (\<lambda>oc. fst (snd oc)) os)"
    and d: "sum_list (map snd (domains st)) = length (filter counted os)"
    by (simp_all add: st_def os_def deliver_all_stats initial_world_def initial_stats_def
        total_apply spam_apply domains_apply)
  have "length (filter counted os) < length os" if "\<exists>oc \<in> set os. \<not> counted oc"
    using that by (auto intro: length_filter_less)
  then show ?thesis using t s d by auto
qed


lemma outcomes_all_processed:
  "(\<And>d. d \<in> set ds \<Longrightarrow> outcome_of lib pl d = Some (f d)) \<Longrightarrow> outcomes lib pl ds = map f ds"
  by (induction ds) (auto simp: outcomes_def map_filter_simps)

lemma example_outcome:
  "\<exists>oc. outcome_of lib_on_plain_message None (example_delivery i) = Some oc \<and> ev_time (fst oc) = i"
  by (simp add: outcome_of_def parse_email_def lib_on_plain_message_def message_body_def
      predict_def example_delivery_def make_event_def)

lemma now_example: "now (example_delivery i) = i"
  by (simp add: example_delivery_def)

lemma example_events:
  "\<exists>f. map fst (outcomes lib_on_plain_message None example_deliveries) = map f [0..<201]
       \<and> (\<forall>i. ev_time (f i) = i)"
proof -
  define g where "g i = the (outcome_of lib_on_plain_message None (example_delivery i))" for i
  have g: "outcome_of lib_on_plain_message None (example_delivery i) = Some (g i)"
    and t: "ev_time (fst (g i)) = i" for i
    using example_outcome [of i] by (auto simp: g_def)
  have "outcomes lib_on_plain_message None example_deliveries
        = map (\<lambda>d. g (now d)) example_deliveries"
    by (rule outcomes_all_processed) (auto simp: example_deliveries_def g now_example)
  then have "map fst (outcomes lib_on_plain_message None example_deliveries)
        = map (\<lambda>i. fst (g i)) [0..<201]"
    by (simp add: example_deliveries_def now_example comp_def)
  then show ?thesis using t by blast
qed

theorem recent_events_bounded_witness:
  "length (map fst (outcomes lib_on_plain_message None example_deliveries)) = 201
   \<and> map fst (outcomes lib_on_plain_message None example_deliveries) ! 0
       \<notin> set (drop 1 (map fst (outcomes lib_on_plain_message None example_deliveries)))
   \<and> events (w_stats (deliver_all lib_on_plain_message None initial_world example_deliveries)) ! 0
       = map fst (outcomes lib_on_plain_message None example_deliveries) ! 200
   \<and> map fst (outcomes lib_on_plain_message None example_deliveries) ! 0
       \<notin> set (events (w_stats
                (deliver_all lib_on_plain_message None initial_world example_deliveries)))"
proof -
  obtain f where pe: "map fst (outcomes lib_on_plain_message None example_deliveries)
                      = map f [0..<201]"
    and t: "\<And>i. ev_time (f i) = i"
    using example_events by blast
  have len: "length (map fst (outcomes lib_on_plain_message None example_deliveries)) = 201"
    unfolding pe by simp
  have "f 0 \<notin> f ` {1..<201}"
  proof
    assume "f 0 \<in> f ` {1..<201}"
    then obtain j where "1 \<le> j" and "f j = f 0" by auto
    then have "ev_time (f j) = ev_time (f 0)" by simp
    then show False using t \<open>1 \<le> j\<close> by simp
  qed
  then have dist: "map fst (outcomes lib_on_plain_message None example_deliveries) ! 0
       \<notin> set (drop 1 (map fst (outcomes lib_on_plain_message None example_deliveries)))"
    unfolding pe by (simp add: drop_map drop_upt)
  show ?thesis
    using recent_events_bounded [where lib = lib_on_plain_message and pl = None
        and ds = example_deliveries] len dist
    by blast
qed

lemma no_sender_outcome:
  "\<exists>ev sp. outcome_of lib_on_plain_message None example_delivery_no_sender = Some (ev, sp, None)"
  by (simp add: outcome_of_def parse_email_def lib_on_plain_message_def message_body_def
      predict_def example_delivery_no_sender_def sender_domain_of_def)

theorem counters_ordered_witness:
  "(\<exists>oc \<in> set (outcomes lib_on_plain_message None [example_delivery_no_sender]). \<not> counted oc)
   \<and> sum_list (map snd (domains (w_stats
         (deliver_all lib_on_plain_message None initial_world [example_delivery_no_sender]))))
       < total_emails (w_stats
           (deliver_all lib_on_plain_message None initial_world [example_delivery_no_sender]))"
proof -
  obtain ev sp where "outcome_of lib_on_plain_message None example_delivery_no_sender
                      = Some (ev, sp, None)"
    using no_sender_outcome by blast
  then have h: "\<exists>oc \<in> set (outcomes lib_on_plain_message None [example_delivery_no_sender]).
                  \<not> counted oc"
    by (simp add: outcomes_def counted_def)
  show ?thesis
    using counters_ordered [where lib = lib_on_plain_message and pl = None
        and ds = "[example_delivery_no_sender]"] h
    by blast
qed

section \<open>Sender domain\<close>


lemma split_on_nonempty: "split_on sep s \<noteq> []"
  by (induction s) (auto split: list.splits)

lemma split_on_no_sep: "sep \<notin> set s \<Longrightarrow> split_on sep s = [s]"
  by (induction s) (auto split: list.splits)

lemma split_on_append: "split_on sep (u @ sep # d) = split_on sep u @ split_on sep d"
proof (induction u)
  case Nil
  then show ?case by simp
next
  case (Cons c u)
  obtain w ws where "split_on sep u = w # ws"
    using split_on_nonempty [of sep u] by (cases "split_on sep u") auto
  then show ?case using Cons by simp
qed

lemma last_item_append: "ys \<noteq> [] \<Longrightarrow> last_item (xs @ ys) = last_item ys"
proof (induction xs)
  case Nil
  then show ?case by simp
next
  case (Cons x xs)
  then show ?case by (cases "xs @ ys") auto
qed

lemma last_item_split:
  "sep \<notin> set d \<Longrightarrow> last_item (split_on sep (u @ sep # d)) = d"
  by (simp add: split_on_append last_item_append split_on_no_sep)

lemma dropWhile_all: "(\<And>x. x \<in> set xs \<Longrightarrow> P x) \<Longrightarrow> dropWhile P xs = []"
  by (induction xs) auto

lemma dropWhile_head: "xs \<noteq> [] \<Longrightarrow> \<not> P (hd xs) \<Longrightarrow> dropWhile P (xs @ ys) = xs @ ys"
  by (cases xs) auto

lemma strip_core:
  assumes a: "set a \<subseteq> set chars" and b: "set b \<subseteq> set chars"
    and core: "core = [] \<or> (hd core \<notin> set chars \<and> last core \<notin> set chars)"
  shows "strip chars (a @ core @ b) = core"
proof (cases "core = []")
  case True
  have d: "dropWhile (\<lambda>c. c \<in> set chars) (a @ b) = []"
    using a b by (intro dropWhile_all) auto
  show ?thesis unfolding strip_def True append_Nil d by simp
next
  case False
  then have h: "hd core \<notin> set chars" and l: "last core \<notin> set chars" using core by auto
  have "dropWhile (\<lambda>c. c \<in> set chars) (a @ core @ b)
        = dropWhile (\<lambda>c. c \<in> set chars) (core @ b)"
    using a by (intro dropWhile_append2) auto
  also have "\<dots> = core @ b" using False h by (rule dropWhile_head)
  finally have 1: "dropWhile (\<lambda>c. c \<in> set chars) (a @ core @ b) = core @ b" .
  have "dropWhile (\<lambda>c. c \<in> set chars) (rev b @ rev core)
        = dropWhile (\<lambda>c. c \<in> set chars) (rev core)"
    using b by (intro dropWhile_append2) auto
  also have "\<dots> = rev core"
    using dropWhile_head [of "rev core" "\<lambda>c. c \<in> set chars" "[]"] False l
    by (simp add: hd_rev)
  finally have 2: "dropWhile (\<lambda>c. c \<in> set chars) (rev b @ rev core) = rev core" .
  show ?thesis by (simp add: strip_def 1 2)
qed

lemma domains_process:
  "process_email lib pl w d = Inr w' \<Longrightarrow> parse_email lib (message_bytes d) = Inr parsed \<Longrightarrow>
   domains (w_stats w') =
     (case sender_domain_of (envelope_from d) (pm_from parsed) of
        None \<Rightarrow> domains (w_stats w)
      | Some sd \<Rightarrow> if sd = [] then domains (w_stats w) else counter_incr sd (domains (w_stats w)))"
  by (auto simp add: process_email_def update_stats_def Let_def split: sum.splits option.splits)

lemma counter_incr_map_of:
  "map_of (counter_incr k kvs)
     = (map_of kvs)(k \<mapsto> (case map_of kvs k of None \<Rightarrow> 1 | Some n \<Rightarrow> n + 1))"
  by (induction kvs) (auto simp: fun_eq_iff)

lemma lower_char_code_point:
  "code_point (lower_char c) =
     (if (65 \<le> code_point c \<and> code_point c \<le> 90) \<or> (192 \<le> code_point c \<and> code_point c \<le> 214)
         \<or> (216 \<le> code_point c \<and> code_point c \<le> 222)
      then code_point c + 32 else code_point c)"
  by (auto simp: lower_char_def code_point_def Let_def)

lemma lower_ascii:
  "lower ''ABCDEFGHIJKLMNOPQRSTUVWXYZ'' = ''abcdefghijklmnopqrstuvwxyz''"
  "lower ''abcdefghijklmnopqrstuvwxyz0123456789.-_'' = ''abcdefghijklmnopqrstuvwxyz0123456789.-_''"
  by code_simp+

text \<open>
  C6: for a delivery that \<open>process_email\<close> processes (\<open>u\<close> is the text before the last
  \<open>@\<close>). When \<open>envelope_from\<close> contains \<open>@\<close>, the sender domain is the lower-cased text
  after its last \<open>@\<close>. Otherwise, when the parsed From header contains \<open>@\<close>, it is the
  lower-cased text after the last \<open>@\<close> of the header without the spaces and \<open>>\<close> around
  it (\<open>a\<close> and \<open>b\<close> are those, \<open>core\<close> is what is left). In both cases the count of a
  non-empty domain goes up by one, the other counts staying as they are. Otherwise the
  sender domain is \<open>None\<close> and the domain counts are unchanged. Lower-casing works
  character by character: the code points 65 to 90 (\<open>A\<close> to \<open>Z\<close>), 192 to 214 and 216 to
  222 move up by 32, every other one stays.
\<close>

theorem sender_domain_derivation:
  assumes run: "process_email lib pl w d = Inr w'"
    and parsed: "parse_email lib (message_bytes d) = Inr parsed"
  shows
    "(envelope_from d = u @ CHR ''@'' # dm \<and> CHR ''@'' \<notin> set dm \<longrightarrow>
        sender_domain_of (envelope_from d) (pm_from parsed) = Some (lower dm)
        \<and> domains (w_stats w') =
            (if dm = [] then domains (w_stats w) else counter_incr (lower dm) (domains (w_stats w))))
     \<and> (CHR ''@'' \<notin> set (envelope_from d) \<and> pm_from parsed = u @ CHR ''@'' # a @ core @ b
          \<and> CHR ''@'' \<notin> set (a @ core @ b)
          \<and> set a \<subseteq> {CHR '' '', CHR ''>''} \<and> set b \<subseteq> {CHR '' '', CHR ''>''}
          \<and> (core = [] \<or> (hd core \<notin> {CHR '' '', CHR ''>''} \<and> last core \<notin> {CHR '' '', CHR ''>''})) \<longrightarrow>
        sender_domain_of (envelope_from d) (pm_from parsed) = Some (lower core)
        \<and> domains (w_stats w') =
            (if core = [] then domains (w_stats w)
             else counter_incr (lower core) (domains (w_stats w))))
     \<and> (CHR ''@'' \<notin> set (envelope_from d) \<and> CHR ''@'' \<notin> set (pm_from parsed) \<longrightarrow>
        sender_domain_of (envelope_from d) (pm_from parsed) = None
        \<and> domains (w_stats w') = domains (w_stats w))
     \<and> length (lower s) = length s
     \<and> (i < length s \<longrightarrow>
          code_point (lower s ! i) =
            (if (65 \<le> code_point (s ! i) \<and> code_point (s ! i) \<le> 90)
                \<or> (192 \<le> code_point (s ! i) \<and> code_point (s ! i) \<le> 214)
                \<or> (216 \<le> code_point (s ! i) \<and> code_point (s ! i) \<le> 222)
             then code_point (s ! i) + 32 else code_point (s ! i)))
     \<and> lower ''ABCDEFGHIJKLMNOPQRSTUVWXYZ'' = ''abcdefghijklmnopqrstuvwxyz''
     \<and> lower ''abcdefghijklmnopqrstuvwxyz0123456789.-_''
         = ''abcdefghijklmnopqrstuvwxyz0123456789.-_''
     \<and> map_of (counter_incr k kvs)
         = (map_of kvs)(k \<mapsto> (case map_of kvs k of None \<Rightarrow> 1 | Some n \<Rightarrow> n + 1))"
proof (intro conjI impI)
  note dom = domains_process [OF run parsed]
  {
    assume h: "envelope_from d = u @ CHR ''@'' # dm \<and> CHR ''@'' \<notin> set dm"
    then show sd: "sender_domain_of (envelope_from d) (pm_from parsed) = Some (lower dm)"
      by (simp add: sender_domain_of_def last_item_split)
    show "domains (w_stats w') =
            (if dm = [] then domains (w_stats w) else counter_incr (lower dm) (domains (w_stats w)))"
      using dom sd by (simp add: lower_def)
  }
  {
    assume h: "CHR ''@'' \<notin> set (envelope_from d) \<and> pm_from parsed = u @ CHR ''@'' # a @ core @ b
          \<and> CHR ''@'' \<notin> set (a @ core @ b)
          \<and> set a \<subseteq> {CHR '' '', CHR ''>''} \<and> set b \<subseteq> {CHR '' '', CHR ''>''}
          \<and> (core = [] \<or> (hd core \<notin> {CHR '' '', CHR ''>''} \<and> last core \<notin> {CHR '' '', CHR ''>''}))"
    then have "last_item (split_on CHR ''@'' (pm_from parsed)) = a @ core @ b"
      using last_item_split [of "CHR ''@''" "a @ core @ b" u] by simp
    moreover have "strip '' >'' (a @ core @ b) = core"
      using h by (intro strip_core) auto
    ultimately show sd: "sender_domain_of (envelope_from d) (pm_from parsed) = Some (lower core)"
      using h by (simp add: sender_domain_of_def)
    show "domains (w_stats w') =
            (if core = [] then domains (w_stats w)
             else counter_incr (lower core) (domains (w_stats w)))"
      using dom sd by (simp add: lower_def)
  }
  {
    assume h: "CHR ''@'' \<notin> set (envelope_from d) \<and> CHR ''@'' \<notin> set (pm_from parsed)"
    then show sd: "sender_domain_of (envelope_from d) (pm_from parsed) = None"
      by (simp add: sender_domain_of_def)
    show "domains (w_stats w') = domains (w_stats w)"
      using dom sd by simp
  }
  show "length (lower s) = length s" by (simp add: lower_def)
  {
    assume "i < length s"
    then have "lower s ! i = lower_char (s ! i)" by (simp add: lower_def)
    then show "code_point (lower s ! i) =
            (if (65 \<le> code_point (s ! i) \<and> code_point (s ! i) \<le> 90)
                \<or> (192 \<le> code_point (s ! i) \<and> code_point (s ! i) \<le> 214)
                \<or> (216 \<le> code_point (s ! i) \<and> code_point (s ! i) \<le> 222)
             then code_point (s ! i) + 32 else code_point (s ! i))"
      by (simp only: lower_char_code_point)
  }
  show "lower ''ABCDEFGHIJKLMNOPQRSTUVWXYZ'' = ''abcdefghijklmnopqrstuvwxyz''"
    by (rule lower_ascii(1))
  show "lower ''abcdefghijklmnopqrstuvwxyz0123456789.-_''
         = ''abcdefghijklmnopqrstuvwxyz0123456789.-_''"
    by (rule lower_ascii(2))
  show "map_of (counter_incr k kvs)
         = (map_of kvs)(k \<mapsto> (case map_of kvs k of None \<Rightarrow> 1 | Some n \<Rightarrow> n + 1))"
    by (rule counter_incr_map_of)
qed

lemma processed_plain:
  "\<exists>w' parsed. process_email lib_on_plain_message None initial_world dl = Inr w'
     \<and> parse_email lib_on_plain_message (message_bytes dl) = Inr parsed \<and> pm_from parsed = []"
  by (simp add: process_email_def parse_email_def lib_on_plain_message_def message_body_def
      predict_def)

lemma processed_sale:
  "\<exists>w' parsed. process_email lib_on_sale_message None initial_world dl = Inr w'
     \<and> parse_email lib_on_sale_message (message_bytes dl) = Inr parsed
     \<and> pm_from parsed = ''Sale <Sale@SHOP.Test>''"
  by (simp add: process_email_def parse_email_def lib_on_sale_message_def message_body_def
      predict_def)

text \<open>
  The three cases of C6 on deliveries with mixed-case addresses: the envelope sender
  \<open>Promo@Deals.Example.COM\<close> counts for \<open>deals.example.com\<close>, the header
  \<open>Sale <Sale@SHOP.Test>\<close> with an empty envelope sender counts for \<open>shop.test\<close>, and a
  delivery with neither counts for no domain.
\<close>

theorem sender_domain_derivation_witness:
  "(\<exists>w'. process_email lib_on_plain_message None initial_world example_delivery_mixed_case
             = Inr w'
         \<and> domains (w_stats w') = [(''deals.example.com'', 1)])
   \<and> (\<exists>w'. process_email lib_on_sale_message None initial_world example_delivery_sale = Inr w'
         \<and> domains (w_stats w') = [(''shop.test'', 1)])
   \<and> (\<exists>w'. process_email lib_on_plain_message None initial_world example_delivery_no_sender
               = Inr w'
         \<and> domains (w_stats w') = [])"
proof (intro conjI)
  obtain w' parsed
    where r: "process_email lib_on_plain_message None initial_world example_delivery_mixed_case
              = Inr w'"
      and p: "parse_email lib_on_plain_message (message_bytes example_delivery_mixed_case)
              = Inr parsed"
    using processed_plain [of example_delivery_mixed_case] by blast
  have e: "envelope_from example_delivery_mixed_case
             = ''Promo'' @ CHR ''@'' # ''Deals.Example.COM''
           \<and> CHR ''@'' \<notin> set ''Deals.Example.COM''"
    by (simp add: example_delivery_mixed_case_def)
  have "domains (w_stats w') = counter_incr (lower ''Deals.Example.COM'') []"
    using sender_domain_derivation [OF r p, of "''Promo''" "''Deals.Example.COM''"] e
    by (simp add: initial_world_def initial_stats_def)
  also have "\<dots> = [(''deals.example.com'', 1)]" by code_simp
  finally show "\<exists>w'. process_email lib_on_plain_message None initial_world
                     example_delivery_mixed_case = Inr w'
         \<and> domains (w_stats w') = [(''deals.example.com'', 1)]"
    using r by blast
next
  obtain w' parsed
    where r: "process_email lib_on_sale_message None initial_world example_delivery_sale = Inr w'"
      and p: "parse_email lib_on_sale_message (message_bytes example_delivery_sale) = Inr parsed"
      and f: "pm_from parsed = ''Sale <Sale@SHOP.Test>''"
    using processed_sale [of example_delivery_sale] by blast
  have e: "CHR ''@'' \<notin> set (envelope_from example_delivery_sale)
       \<and> pm_from parsed = ''Sale <Sale'' @ CHR ''@'' # [] @ ''SHOP.Test'' @ ''>''
       \<and> CHR ''@'' \<notin> set ([] @ ''SHOP.Test'' @ ''>'')
       \<and> set [] \<subseteq> {CHR '' '', CHR ''>''} \<and> set ''>'' \<subseteq> {CHR '' '', CHR ''>''}
       \<and> (''SHOP.Test'' = [] \<or> (hd ''SHOP.Test'' \<notin> {CHR '' '', CHR ''>''}
            \<and> last ''SHOP.Test'' \<notin> {CHR '' '', CHR ''>''}))"
    by (simp add: example_delivery_sale_def f)
  have "domains (w_stats w') = counter_incr (lower ''SHOP.Test'') []"
    using sender_domain_derivation [OF r p, of "''Sale <Sale''" _ "[]" "''SHOP.Test''" "''>''"] e
    by (simp add: initial_world_def initial_stats_def)
  also have "\<dots> = [(''shop.test'', 1)]" by code_simp
  finally show "\<exists>w'. process_email lib_on_sale_message None initial_world example_delivery_sale
                      = Inr w'
         \<and> domains (w_stats w') = [(''shop.test'', 1)]"
    using r by blast
next
  obtain w' parsed
    where r: "process_email lib_on_plain_message None initial_world example_delivery_no_sender
              = Inr w'"
      and p: "parse_email lib_on_plain_message (message_bytes example_delivery_no_sender)
              = Inr parsed"
      and f: "pm_from parsed = []"
    using processed_plain [of example_delivery_no_sender] by blast
  have e: "CHR ''@'' \<notin> set (envelope_from example_delivery_no_sender)
           \<and> CHR ''@'' \<notin> set (pm_from parsed)"
    by (simp add: example_delivery_no_sender_def f)
  have "domains (w_stats w') = []"
    using sender_domain_derivation [OF r p] e
    by (simp add: initial_world_def initial_stats_def)
  then show "\<exists>w'. process_email lib_on_plain_message None initial_world
                     example_delivery_no_sender = Inr w'
         \<and> domains (w_stats w') = []"
    using r by blast
qed

section \<open>Top domains\<close>

lemma counter_incr_keys:
  "map fst (counter_incr k kvs) = (if k \<in> fst ` set kvs then map fst kvs else map fst kvs @ [k])"
  by (induction kvs) force+

lemma sorted_desc:
  "sorted_wrt (\<lambda>a b. snd b \<le> snd a) (sort_key (\<lambda>kv. - int (snd kv)) (kvs :: ('a \<times> nat) list))"
proof -
  have "sorted (map (\<lambda>kv. - int (snd kv)) (sort_key (\<lambda>kv. - int (snd kv)) kvs))"
    by (rule sorted_sort_key)
  then show ?thesis by (simp add: sorted_map sorted_wrt_iff_nth_less)
qed

text \<open>
  C8: the top-domains list of the snapshot is \<open>most_common 10\<close> of the domain counts.
  It has 10 entries, or all of them when there are fewer. Completed by some list
  \<open>rest\<close> it is a rearrangement of all the counted domains in falling order of count,
  so it holds the highest counts, highest first; and for every count \<open>k\<close> the domains
  with that count appear in it in the order they have in the counter, which is the
  order of their first insertion (\<open>counter_incr\<close> keeps the place of a known domain and
  puts a new one last). The list is a function of the counts alone, so repeated calls
  on unchanged counts return the same list.
\<close>

theorem top_domains_ranking:
  "length (sn_top_domains (summary_stats st)) = min 10 (length (domains st))
   \<and> (\<exists>rest. mset (sn_top_domains (summary_stats st) @ rest) = mset (domains st)
        \<and> sorted_wrt (\<lambda>a b. snd b \<le> snd a) (sn_top_domains (summary_stats st) @ rest)
        \<and> (\<forall>k. filter (\<lambda>kv. snd kv = k) (sn_top_domains (summary_stats st) @ rest)
               = filter (\<lambda>kv. snd kv = k) (domains st)))
   \<and> map fst (counter_incr sd (domains st))
       = (if sd \<in> fst ` set (domains st) then map fst (domains st) else map fst (domains st) @ [sd])
   \<and> sn_top_domains (summary_stats st) = most_common 10 (domains st)"
proof -
  let ?s = "sort_key (\<lambda>kv. - int (snd kv)) (domains st)"
  have top: "sn_top_domains (summary_stats st) = take 10 ?s"
    by (simp add: summary_stats_def most_common_def)
  have stable: "filter (\<lambda>kv. snd kv = k) ?s = filter (\<lambda>kv. snd kv = k) (domains st)" for k
    using sort_key_stable [of "\<lambda>kv. - int (snd kv)" "- int k" "domains st"] by simp
  have ex: "\<exists>rest. mset (take 10 ?s @ rest) = mset (domains st)
        \<and> sorted_wrt (\<lambda>a b. snd b \<le> snd a) (take 10 ?s @ rest)
        \<and> (\<forall>k. filter (\<lambda>kv. snd kv = k) (take 10 ?s @ rest)
               = filter (\<lambda>kv. snd kv = k) (domains st))"
  proof (intro exI [of _ "drop 10 ?s"] conjI allI)
    show "mset (take 10 ?s @ drop 10 ?s) = mset (domains st)" by simp
    show "sorted_wrt (\<lambda>a b. snd b \<le> snd a) (take 10 ?s @ drop 10 ?s)"
      using sorted_desc [of "domains st"] by simp
    show "filter (\<lambda>kv. snd kv = k) (take 10 ?s @ drop 10 ?s)
          = filter (\<lambda>kv. snd kv = k) (domains st)" for k
      using stable [of k] by simp
  qed
  have len: "length (take 10 ?s) = min 10 (length (domains st))" by simp
  show ?thesis
    unfolding top using ex len counter_incr_keys [of sd "domains st"]
    by (simp add: most_common_def)
qed

section \<open>The message parser\<close>








section \<open>The keyword rule\<close>













lemma substring_of_iff: "substring_of kw s \<longleftrightarrow> (\<exists>u v. s = u @ kw @ v)"
proof (induction s)
  case Nil
  then show ?case by auto
next
  case (Cons c cs)
  show ?case
  proof
    assume "substring_of kw (c # cs)"
    then consider "prefix kw (c # cs)" | "substring_of kw cs" by (auto split: if_splits)
    then show "\<exists>u v. c # cs = u @ kw @ v"
    proof cases
      case 1
      then show ?thesis by (auto simp: prefix_def intro: exI [of _ "[]"])
    next
      case 2
      then obtain u v where "cs = u @ kw @ v" using Cons.IH by blast
      then show ?thesis by (intro exI [of _ "c # u"] exI [of _ v]) simp
    qed
  next
    assume "\<exists>u v. c # cs = u @ kw @ v"
    then obtain u v where uv: "c # cs = u @ kw @ v" by blast
    show "substring_of kw (c # cs)"
    proof (cases u)
      case Nil
      then have "prefix kw (c # cs)" unfolding prefix_def using uv by auto
      then show ?thesis by simp
    next
      case (Cons x u')
      then have "cs = u' @ kw @ v" using uv by simp
      then show ?thesis using Cons.IH by auto
    qed
  qed
qed

lemma dollar_amount_in_iff:
  "dollar_amount_in s \<longleftrightarrow> (\<exists>u d v. s = u @ CHR ''$'' # d # v \<and> is_digit d)"
proof (induction s rule: dollar_amount_in.induct)
  case 1
  then show ?case by simp
next
  case (2 c)
  then show ?case by (auto simp: append_eq_Cons_conv)
next
  case (3 c d cs)
  show ?case
  proof (cases "c = CHR ''$'' \<and> is_digit d")
    case True
    then show ?thesis by (auto intro: exI [of _ "[]"])
  next
    case False
    have "(\<exists>u e v. c # d # cs = u @ CHR ''$'' # e # v \<and> is_digit e)
          \<longleftrightarrow> (\<exists>u e v. d # cs = u @ CHR ''$'' # e # v \<and> is_digit e)"
    proof
      assume "\<exists>u e v. c # d # cs = u @ CHR ''$'' # e # v \<and> is_digit e"
      then obtain u e v where uv: "c # d # cs = u @ CHR ''$'' # e # v" and e: "is_digit e"
        by blast
      show "\<exists>u e v. d # cs = u @ CHR ''$'' # e # v \<and> is_digit e"
      proof (cases u)
        case Nil
        then show ?thesis using uv e False by auto
      next
        case (Cons x u')
        then show ?thesis using uv e by auto
      qed
    next
      assume "\<exists>u e v. d # cs = u @ CHR ''$'' # e # v \<and> is_digit e"
      then obtain u e v where "d # cs = u @ CHR ''$'' # e # v" and "is_digit e" by blast
      then show "\<exists>u e v. c # d # cs = u @ CHR ''$'' # e # v \<and> is_digit e"
        by (intro exI [of _ "c # u"] exI [of _ e] exI [of _ v]) simp
    qed
    moreover have "dollar_amount_in (c # d # cs) = dollar_amount_in (d # cs)"
      using False by auto
    moreover have "dollar_amount_in (d # cs)
                   \<longleftrightarrow> (\<exists>u e v. d # cs = u @ CHR ''$'' # e # v \<and> is_digit e)"
      using "3.IH" False by blast
    ultimately show ?thesis by blast
  qed
qed





end
